theory Spec2Isabelle
  imports Main
begin

section \<open>Python values, errors and characters\<close>

text \<open>
  The values that reach the rule engine: JSON payloads and the fields of the syntax tree.
  A dictionary keeps its insertion order, so it is an association list (with distinct
  keys). Python floats are not part of this universe; the one place where the source
  would build one (\<^verbatim>\<open>float(value)\<close>) is marked by the outcome \<open>Unmodelled\<close> below.
\<close>

datatype pyval =
    PNone
  | PBool bool
  | PInt int
  | PStr string
  | PList "pyval list"
  | PDict "(string \<times> pyval) list"

text \<open>
  The exceptions of the source, as values. \<open>ValueError msg\<close> carries the message the
  source builds; \<open>IntValueError s\<close> is the \<^verbatim>\<open>ValueError\<close> that the builtin
  \<^verbatim>\<open>int(s)\<close> raises (its message is CPython's). \<open>Unmodelled\<close> is not an exception:
  it marks the paths this development leaves out (float conversion, and \<^verbatim>\<open>int\<close> on
  more than 4300 digits, whose result depends on the interpreter's version).
\<close>

datatype error =
    ValueError string
  | IntValueError string
  | IndexError
  | TypeError
  | AttributeError
  | Unmodelled

text \<open>Strings are lists of code points below 256; the two quote characters by name.\<close>

abbreviation sq :: char where "sq \<equiv> CHR 0x27"
abbreviation dq :: char where "dq \<equiv> CHR 0x22"

definition code :: "char \<Rightarrow> nat" where
  "code c = of_char c"

text \<open>\<^verbatim>\<open>\s\<close> of \<^verbatim>\<open>re\<close> and the characters \<^verbatim>\<open>str.strip()\<close> removes.\<close>

definition is_space :: "char \<Rightarrow> bool" where
  "is_space c = ((9 \<le> code c \<and> code c \<le> 13) \<or> (28 \<le> code c \<and> code c \<le> 32)
                 \<or> code c = 133 \<or> code c = 160)"

text \<open>\<^verbatim>\<open>\d\<close>\<close>

definition is_digit :: "char \<Rightarrow> bool" where
  "is_digit c = (48 \<le> code c \<and> code c \<le> 57)"

text \<open>\<^verbatim>\<open>[a-zA-Z_]\<close>\<close>

definition is_ident_start :: "char \<Rightarrow> bool" where
  "is_ident_start c = ((65 \<le> code c \<and> code c \<le> 90) \<or> (97 \<le> code c \<and> code c \<le> 122)
                       \<or> c = CHR ''_'')"

text \<open>\<^verbatim>\<open>[a-zA-Z0-9_.]\<close>\<close>

definition is_ident_char :: "char \<Rightarrow> bool" where
  "is_ident_char c = (is_ident_start c \<or> is_digit c \<or> c = CHR ''.'')"

text \<open>\<^verbatim>\<open>[<>!=]\<close>\<close>

definition is_cmp_char :: "char \<Rightarrow> bool" where
  "is_cmp_char c = (c = CHR ''<'' \<or> c = CHR ''>'' \<or> c = CHR ''!'' \<or> c = CHR ''='')"

text \<open>\<^verbatim>\<open>[()<>!=]\<close>\<close>

definition is_op_char :: "char \<Rightarrow> bool" where
  "is_op_char c = (c = CHR ''('' \<or> c = CHR '')'' \<or> is_cmp_char c)"

section \<open>Tokenizer\<close>

text \<open>
  \<^verbatim>\<open>pattern = r'(\s+|AND|OR|[()<>!=]=?|[a-zA-Z_][a-zA-Z0-9_.]*|\'[^\']*\'|\"[^\"]*\")'\<close>

  One function for each alternative of the pattern: the matched text and the rest of
  the input, or \<open>None\<close>. Nothing follows the group, so at a position the first
  alternative that matches decides, each quantifier taking as much as it can.
\<close>

definition alt_space :: "string \<Rightarrow> (string \<times> string) option" where
  "alt_space s = (case s of [] \<Rightarrow> None
     | c # cs \<Rightarrow> if is_space c then Some (takeWhile is_space s, dropWhile is_space s) else None)"

definition alt_word :: "string \<Rightarrow> string \<Rightarrow> (string \<times> string) option" where
  "alt_word w s = (if take (length w) s = w then Some (w, drop (length w) s) else None)"

definition alt_op :: "string \<Rightarrow> (string \<times> string) option" where
  "alt_op s = (case s of [] \<Rightarrow> None
     | c # cs \<Rightarrow> if is_op_char c
         then (case cs of [] \<Rightarrow> Some ([c], [])
               | d # ds \<Rightarrow> if d = CHR ''='' then Some ([c, d], ds) else Some ([c], cs))
         else None)"

definition alt_ident :: "string \<Rightarrow> (string \<times> string) option" where
  "alt_ident s = (case s of [] \<Rightarrow> None
     | c # cs \<Rightarrow> if is_ident_start c
         then Some (c # takeWhile is_ident_char cs, dropWhile is_ident_char cs)
         else None)"

text \<open>
  \<^verbatim>\<open>'[^']*'\<close> (and the same with the double quote): the run of non-quote characters is
  greedy, so it ends at the next quote or at the end of the input, where the match fails.
\<close>

definition alt_quoted :: "char \<Rightarrow> string \<Rightarrow> (string \<times> string) option" where
  "alt_quoted q s = (case s of [] \<Rightarrow> None
     | c # cs \<Rightarrow> if c = q
         then (case dropWhile (\<lambda>x. x \<noteq> q) cs of [] \<Rightarrow> None
               | d # ds \<Rightarrow> Some (q # takeWhile (\<lambda>x. x \<noteq> q) cs @ [q], ds))
         else None)"

fun orelse :: "'a option \<Rightarrow> 'a option \<Rightarrow> 'a option" where
  "orelse (Some x) y = Some x"
| "orelse None y = y"

definition match_token :: "string \<Rightarrow> (string \<times> string) option" where
  "match_token s =
     orelse (alt_space s) (orelse (alt_word ''AND'' s) (orelse (alt_word ''OR'' s)
    (orelse (alt_op s) (orelse (alt_ident s) (orelse (alt_quoted sq s) (alt_quoted dq s))))))"

lemma alt_space_shorter: "alt_space s = Some (t, r) \<Longrightarrow> length r < length s"
  by (cases s) (auto simp: alt_space_def length_dropWhile_le le_imp_less_Suc split: if_splits)

lemma alt_op_shorter: "alt_op s = Some (t, r) \<Longrightarrow> length r < length s"
  by (auto simp: alt_op_def split: list.splits if_splits)

lemma alt_ident_shorter: "alt_ident s = Some (t, r) \<Longrightarrow> length r < length s"
  by (cases s) (auto simp: alt_ident_def length_dropWhile_le le_imp_less_Suc split: if_splits)

lemma alt_quoted_shorter: "alt_quoted q s = Some (t, r) \<Longrightarrow> length r < length s"
proof (cases s)
  case Nil
  assume "alt_quoted q s = Some (t, r)"
  with Nil show ?thesis by (simp add: alt_quoted_def)
next
  case (Cons c cs)
  assume a: "alt_quoted q s = Some (t, r)"
  from a Cons obtain d where d: "dropWhile (\<lambda>x. x \<noteq> q) cs = d # r"
    by (auto simp: alt_quoted_def split: if_splits list.splits)
  have "length (dropWhile (\<lambda>x. x \<noteq> q) cs) \<le> length cs"
    by (rule length_dropWhile_le)
  with d Cons show ?thesis by simp
qed

lemma alt_word_shorter: "w \<noteq> [] \<Longrightarrow> alt_word w s = Some (t, r) \<Longrightarrow> length r < length s"
  by (cases s) (auto simp: alt_word_def split: if_splits)

lemma orelse_Some: "orelse a b = Some x \<Longrightarrow> a = Some x \<or> b = Some x"
  by (cases a) auto

lemma match_token_cases:
  "match_token s = Some x \<Longrightarrow>
     alt_space s = Some x \<or> alt_word ''AND'' s = Some x \<or> alt_word ''OR'' s = Some x \<or>
     alt_op s = Some x \<or> alt_ident s = Some x \<or> alt_quoted sq s = Some x \<or>
     alt_quoted dq s = Some x"
  unfolding match_token_def by (auto dest!: orelse_Some)

lemma match_token_shorter: "match_token s = Some (t, r) \<Longrightarrow> length r < length s"
proof -
  assume "match_token s = Some (t, r)"
  from match_token_cases [OF this] show ?thesis
  proof (elim disjE)
    assume "alt_word ''AND'' s = Some (t, r)"
    then show ?thesis by (rule alt_word_shorter [rotated]) simp
  next
    assume "alt_word ''OR'' s = Some (t, r)"
    then show ?thesis by (rule alt_word_shorter [rotated]) simp
  qed (erule alt_space_shorter alt_op_shorter alt_ident_shorter alt_quoted_shorter)+
qed

text \<open>
  \<^verbatim>\<open>re.split(pattern, rule_string)\<close> with a capturing group: the input is scanned from
  the left; where the pattern matches, the text since the last match (possibly empty)
  and the matched text are both put out; a character at which no alternative matches
  joins the pending text; the text after the last match ends the list.
\<close>

function split_loop :: "string \<Rightarrow> string \<Rightarrow> string list" where
  "split_loop [] gap = [rev gap]"
| "split_loop (c # cs) gap =
     (case match_token (c # cs) of
        Some (tok, rest) \<Rightarrow> rev gap # tok # split_loop rest []
      | None \<Rightarrow> split_loop cs (c # gap))"
  by pat_completeness auto
termination
  by (relation "measure (\<lambda>(s, gap). length s)") (auto dest: match_token_shorter)

definition re_split :: "string \<Rightarrow> string list" where
  "re_split s = split_loop s []"

text \<open>\<^verbatim>\<open>token.strip()\<close>\<close>

definition strip :: "string \<Rightarrow> string" where
  "strip t = rev (dropWhile is_space (rev (dropWhile is_space t)))"

text \<open>\<^verbatim>\<open>[token for token in re.split(pattern, rule_string) if token.strip()]\<close>\<close>

definition tokenize :: "string \<Rightarrow> string list" where
  "tokenize rule_string = filter (\<lambda>token. strip token \<noteq> []) (re_split rule_string)"

section \<open>Syntax tree\<close>

text \<open>
  \<^verbatim>\<open>class Node\<close>: \<open>node_type\<close>, \<open>val\<close> (the attribute \<^verbatim>\<open>value\<close>) and the two
  children, each a node or \<^verbatim>\<open>None\<close>. The constructor stores whatever it is given, so
  the two attributes are Python values; the parser only stores strings there.
\<close>

datatype node = Node (node_type: pyval) (val: pyval) (left: "node option") (right: "node option")



section \<open>Parser\<close>

text \<open>
  The two stacks of \<^verbatim>\<open>parse\<close> are Python lists used with \<^verbatim>\<open>append\<close> and
  \<^verbatim>\<open>pop\<close>; here the head of the list is the top of the stack.
\<close>

text \<open>\<^verbatim>\<open>precedence = {'AND': 1, 'OR': 0}\<close>\<close>

definition precedence :: "string \<rightharpoonup> nat" where
  "precedence = [''AND'' \<mapsto> 1, ''OR'' \<mapsto> 0]"

text \<open>\<^verbatim>\<open>re.match(r"[a-zA-Z_][a-zA-Z0-9_.]*", token)\<close>: a match at the start of the token.\<close>

definition ident_match :: "string \<Rightarrow> bool" where
  "ident_match token = (case token of [] \<Rightarrow> False | c # cs \<Rightarrow> is_ident_start c)"

text \<open>\<^verbatim>\<open>re.match(r"[<>!=]+", token)\<close>\<close>

definition cmp_match :: "string \<Rightarrow> bool" where
  "cmp_match token = (case token of [] \<Rightarrow> False | c # cs \<Rightarrow> is_cmp_char c)"

text \<open>\<^verbatim>\<open>Node("operator", value=op, left=left, right=right)\<close>\<close>

definition operator_node :: "string \<Rightarrow> node \<Rightarrow> node \<Rightarrow> node" where
  "operator_node op l r = Node (PStr ''operator'') (PStr op) (Some l) (Some r)"

text \<open>\<^verbatim>\<open>Node("operand", value=condition)\<close>\<close>

definition operand_node :: "string \<Rightarrow> node" where
  "operand_node condition = Node (PStr ''operand'') (PStr condition) None None"

text \<open>The loop at a closing parenthesis: \<^verbatim>\<open>while operators and operators[-1] != '('\<close>.\<close>

fun collapse_paren :: "node list \<Rightarrow> string list \<Rightarrow> error + (node list \<times> string list)" where
  "collapse_paren output [] = Inr (output, [])"
| "collapse_paren output (op # operators) =
     (if op = ''('' then Inr (output, op # operators)
      else (case output of
              r # l # output' \<Rightarrow> collapse_paren (operator_node op l r # output') operators
            | _ \<Rightarrow> Inl (ValueError ''Incomplete expression before closing parenthesis'')))"

text \<open>
  The loop at \<^verbatim>\<open>AND\<close>/\<^verbatim>\<open>OR\<close>: \<^verbatim>\<open>while (operators and operators[-1] in precedence and
  precedence[operators[-1]] >= precedence[token])\<close>.
\<close>

fun collapse_prec :: "string \<Rightarrow> node list \<Rightarrow> string list \<Rightarrow> error + (node list \<times> string list)" where
  "collapse_prec token output [] = Inr (output, [])"
| "collapse_prec token output (op # operators) =
     (if op \<in> dom precedence \<and> the (precedence op) \<ge> the (precedence token)
      then (case output of
              r # l # output' \<Rightarrow> collapse_prec token (operator_node op l r # output') operators
            | _ \<Rightarrow> Inl (ValueError ''Incomplete expression during operator processing''))
      else Inr (output, op # operators))"

text \<open>The loop after the last token: \<^verbatim>\<open>while operators\<close>.\<close>

fun collapse_rest :: "node list \<Rightarrow> string list \<Rightarrow> error + node list" where
  "collapse_rest output [] = Inr output"
| "collapse_rest output (op # operators) =
     (case output of
        r # l # output' \<Rightarrow> collapse_rest (operator_node op l r # output') operators
      | _ \<Rightarrow> Inl (ValueError ''Incomplete expression at end of parsing''))"

text \<open>
  The main loop, on the tokens from index \<^verbatim>\<open>i\<close> on: \<^verbatim>\<open>i + 2 < len(tokens)\<close> says
  that two more tokens follow the current one. \<^verbatim>\<open>operators.pop()\<close> on the empty list
  raises \<^verbatim>\<open>IndexError\<close>.
\<close>

fun parse_loop :: "string list \<Rightarrow> node list \<Rightarrow> string list \<Rightarrow> error + (node list \<times> string list)" where
  "parse_loop [] output operators = Inr (output, operators)"
| "parse_loop (token # tokens) output operators =
     (if token = ''('' then parse_loop tokens output (token # operators)
      else if token = '')'' then
        (case collapse_paren output operators of
           Inl e \<Rightarrow> Inl e
         | Inr (output', operators') \<Rightarrow>
             (case operators' of
                [] \<Rightarrow> Inl IndexError
              | op # operators'' \<Rightarrow> parse_loop tokens output' operators''))
      else if token \<in> dom precedence then
        (case collapse_prec token output operators of
           Inl e \<Rightarrow> Inl e
         | Inr (output', operators') \<Rightarrow> parse_loop tokens output' (token # operators'))
      else
        (case tokens of
           t1 # t2 # tokens' \<Rightarrow>
             if ident_match token \<and> cmp_match t1
             then parse_loop tokens'
                    (operand_node (token @ '' '' @ t1 @ '' '' @ t2) # output) operators
             else Inl (ValueError (''Invalid token or incomplete expression: '' @ [sq] @ token @ [sq]))
         | _ \<Rightarrow> Inl (ValueError (''Invalid token or incomplete expression: '' @ [sq] @ token @ [sq]))))"

definition parse :: "string list \<Rightarrow> error + node" where
  "parse tokens =
     (case parse_loop tokens [] [] of
        Inl e \<Rightarrow> Inl e
      | Inr (output, operators) \<Rightarrow>
          (case collapse_rest output operators of
             Inl e \<Rightarrow> Inl e
           | Inr output' \<Rightarrow>
               (case output' of
                  [n] \<Rightarrow> Inr n
                | _ \<Rightarrow> Inl (ValueError ''Invalid expression: check operator and operand count.''))))"

section \<open>Compiling and combining rules\<close>

text \<open>
  \<^verbatim>\<open>create_rule\<close>: the \<^verbatim>\<open>except ValueError\<close> clause rewrites the message of a
  \<^verbatim>\<open>ValueError\<close> from \<^verbatim>\<open>parse\<close> (which never calls \<^verbatim>\<open>int\<close>); any other
  exception passes through unchanged. \<^verbatim>\<open>parse\<close> never returns \<^verbatim>\<open>None\<close>.
\<close>

definition create_rule :: "string \<Rightarrow> error + node" where
  "create_rule rule_string =
     (if rule_string = [] then Inl (ValueError ''rule_string must not be null or empty'')
      else let tokens = tokenize rule_string in
        if tokens = [] then Inl (ValueError ''rule_string did not produce any tokens'')
        else (case parse tokens of
                Inl (ValueError e) \<Rightarrow> Inl (ValueError (''Error parsing rule: '' @ e))
              | Inl e \<Rightarrow> Inl e
              | Inr ast \<Rightarrow> Inr ast))"

text \<open>What \<^verbatim>\<open>except ValueError\<close> catches.\<close>

fun is_ValueError :: "error \<Rightarrow> bool" where
  "is_ValueError (ValueError msg) = True"
| "is_ValueError (IntValueError s) = True"
| "is_ValueError e = False"

text \<open>
  The loop of \<^verbatim>\<open>combine_rules\<close>, with \<^verbatim>\<open>combined_ast\<close> as its state. A rule whose
  compilation raises \<^verbatim>\<open>ValueError\<close> is skipped (the line it prints is not modelled);
  any other exception leaves the loop and the function.
\<close>

fun combine_loop :: "string list \<Rightarrow> node option \<Rightarrow> error + node option" where
  "combine_loop [] combined_ast = Inr combined_ast"
| "combine_loop (rule # rules) combined_ast =
     (case create_rule rule of
        Inr rule_ast \<Rightarrow>
          (case combined_ast of
             None \<Rightarrow> combine_loop rules (Some rule_ast)
           | Some c \<Rightarrow> combine_loop rules (Some (operator_node ''OR'' c rule_ast)))
      | Inl e \<Rightarrow> if is_ValueError e then combine_loop rules combined_ast else Inl e)"

definition combine_rules :: "string list \<Rightarrow> error + node option" where
  "combine_rules rules = (if rules = [] then Inr None else combine_loop rules None)"

section \<open>Condition evaluator\<close>

text \<open>
  \<^verbatim>\<open>pattern = r"([a-zA-Z_][a-zA-Z0-9_.]*)\s*([<>!=]=?)\s*(\d+(\.\d+)?|'.*?'|\".*?\")"\<close>

  The third group. A number: the digits are greedy, and the fraction is taken when a dot
  and a digit follow. A quoted text: \<^verbatim>\<open>.*?\<close> is lazy and \<^verbatim>\<open>.\<close> is any character but
  the newline, so the text ends at the next quote, and there is no match when a newline
  or the end of the input comes first.
\<close>

definition lazy_quoted :: "char \<Rightarrow> string \<Rightarrow> (string \<times> string) option" where
  "lazy_quoted q cs =
     (case dropWhile (\<lambda>x. x \<noteq> q \<and> x \<noteq> CHR 0x0A) cs of
        [] \<Rightarrow> None
      | d # ds \<Rightarrow> if d = q then Some (q # takeWhile (\<lambda>x. x \<noteq> q \<and> x \<noteq> CHR 0x0A) cs @ [q], ds)
                 else None)"

definition match_literal :: "string \<Rightarrow> (string \<times> string) option" where
  "match_literal s =
     (case s of
        [] \<Rightarrow> None
      | c # cs \<Rightarrow>
          if is_digit c then
            (let ds = takeWhile is_digit s; r = dropWhile is_digit s in
             case r of
               d # e # r' \<Rightarrow>
                 if d = CHR ''.'' \<and> is_digit e
                 then Some (ds @ [d] @ takeWhile is_digit (e # r'), dropWhile is_digit (e # r'))
                 else Some (ds, r)
             | _ \<Rightarrow> Some (ds, r))
          else if c = sq then lazy_quoted sq cs
          else if c = dq then lazy_quoted dq cs
          else None)"

text \<open>The second group, \<^verbatim>\<open>[<>!=]=?\<close>.\<close>

definition match_cmp :: "string \<Rightarrow> (string \<times> string) option" where
  "match_cmp s = (case s of [] \<Rightarrow> None
     | c # cs \<Rightarrow> if is_cmp_char c
         then (case cs of [] \<Rightarrow> Some ([c], [])
               | d # ds \<Rightarrow> if d = CHR ''='' then Some ([c, d], ds) else Some ([c], cs))
         else None)"

text \<open>
  \<^verbatim>\<open>re.match(pattern, operand)\<close>: the groups 1, 2 and 3, and the text after the match,
  which the source never looks at. The first group is the identifier pattern of the
  tokenizer; \<^verbatim>\<open>\s*\<close> drops the white space before the second and the third group.
  The character classes of neighbouring parts are disjoint, so giving back characters
  of a greedy part never leads to a match.
\<close>

definition cond_match :: "string \<Rightarrow> (string \<times> string \<times> string \<times> string) option" where
  "cond_match operand =
     (case alt_ident operand of
        None \<Rightarrow> None
      | Some (field, r1) \<Rightarrow>
          (case match_cmp (dropWhile is_space r1) of
             None \<Rightarrow> None
           | Some (operator, r2) \<Rightarrow>
               (case match_literal (dropWhile is_space r2) of
                  None \<Rightarrow> None
                | Some (v, rest) \<Rightarrow> Some (field, operator, v, rest))))"

text \<open>
  The builtin \<^verbatim>\<open>int(s)\<close> on a string: white space around the number is dropped (for
  \<^verbatim>\<open>int\<close>, the code points 9 to 13, 32, 133 and 160), a sign may come first, and
  single underscores may stand between digits. \<open>None\<close> is the \<^verbatim>\<open>ValueError\<close>.
\<close>

definition is_int_space :: "char \<Rightarrow> bool" where
  "is_int_space c = ((9 \<le> code c \<and> code c \<le> 13) \<or> code c = 32 \<or> code c = 133 \<or> code c = 160)"

fun digit_groups :: "string \<Rightarrow> bool" where
  "digit_groups [] = False"
| "digit_groups [c] = is_digit c"
| "digit_groups (c # d # cs) =
     (is_digit c \<and> (if d = CHR ''_'' then digit_groups cs else digit_groups (d # cs)))"

definition digits_value :: "string \<Rightarrow> int" where
  "digits_value ds = foldl (\<lambda>a c. 10 * a + (int (code c) - 48)) 0 ds"

definition py_int :: "string \<Rightarrow> error + int" where
  "py_int s =
     (let t = rev (dropWhile is_int_space (rev (dropWhile is_int_space s)));
          (sign, body) = (case t of
                            [] \<Rightarrow> (1, t)
                          | c # cs \<Rightarrow> if c = CHR ''+'' then (1, cs)
                                     else if c = CHR ''-'' then (- 1, cs) else (1, t))
      in if \<not> digit_groups body then Inl (IntValueError s)
         else if length (filter is_digit body) > 4300 then Inl Unmodelled
         else Inr (sign * digits_value (filter is_digit body)))"

text \<open>Python's order on strings: by code point, a proper prefix first.\<close>

fun str_less :: "string \<Rightarrow> string \<Rightarrow> bool" where
  "str_less [] [] = False"
| "str_less [] (y # ys) = True"
| "str_less (x # xs) [] = False"
| "str_less (x # xs) (y # ys) = (code x < code y \<or> (x = y \<and> str_less xs ys))"

text \<open>\<^verbatim>\<open>isinstance(field_value, (int, float))\<close>: \<^verbatim>\<open>bool\<close> is a subclass of \<^verbatim>\<open>int\<close>.\<close>

fun num_of :: "pyval \<Rightarrow> int option" where
  "num_of (PInt i) = Some i"
| "num_of (PBool b) = Some (if b then 1 else 0)"
| "num_of v = None"

text \<open>
  The six entries of the table \<^verbatim>\<open>operators\<close>, applied to the field's value and the
  converted literal (an \<^verbatim>\<open>int\<close> when the field is a number, a \<^verbatim>\<open>str\<close> otherwise).
  Numbers compare with numbers and strings with strings; values of different kinds are
  unequal, and ordering them raises \<^verbatim>\<open>TypeError\<close>.
\<close>

definition apply_operator :: "string \<Rightarrow> pyval \<Rightarrow> pyval \<Rightarrow> error + bool" where
  "apply_operator operator x y =
     (case (num_of x, num_of y) of
        (Some a, Some b) \<Rightarrow>
          Inr (if operator = ''>'' then a > b
               else if operator = ''<'' then a < b
               else if operator = ''=='' then a = b
               else if operator = ''!='' then a \<noteq> b
               else if operator = ''>='' then a \<ge> b
               else a \<le> b)
      | _ \<Rightarrow>
          (case (x, y) of
             (PStr a, PStr b) \<Rightarrow>
               Inr (if operator = ''>'' then str_less b a
                    else if operator = ''<'' then str_less a b
                    else if operator = ''=='' then a = b
                    else if operator = ''!='' then a \<noteq> b
                    else if operator = ''>='' then \<not> str_less a b
                    else \<not> str_less b a)
           | _ \<Rightarrow>
               (case y of
                  PList ys \<Rightarrow> Inl Unmodelled
                | PDict d \<Rightarrow> Inl Unmodelled
                | PNone \<Rightarrow> Inl Unmodelled
                | _ \<Rightarrow>
                    if operator = ''=='' then Inr False
                    else if operator = ''!='' then Inr True
                    else Inl TypeError)))"

text \<open>\<^verbatim>\<open>value.startswith(("'", "\""))\<close> and \<^verbatim>\<open>value.endswith(("'", "\""))\<close>\<close>

definition startswith_quote :: "string \<Rightarrow> bool" where
  "startswith_quote v = (case v of [] \<Rightarrow> False | c # cs \<Rightarrow> c = sq \<or> c = dq)"

definition endswith_quote :: "string \<Rightarrow> bool" where
  "endswith_quote v = (v \<noteq> [] \<and> (last v = sq \<or> last v = dq))"

definition evaluate_condition :: "string \<Rightarrow> (string \<rightharpoonup> pyval) \<Rightarrow> error + bool" where
  "evaluate_condition operand data =
     (case cond_match operand of
        None \<Rightarrow> Inl (ValueError (''Invalid condition: '' @ operand))
      | Some (field, operator, v, rest) \<Rightarrow>
          (case data field of
             None \<Rightarrow> Inl (ValueError (''Field '' @ [sq] @ field @ [sq] @ '' not found in data.''))
           | Some field_value \<Rightarrow>
               (let v = (if startswith_quote v \<and> endswith_quote v then butlast (tl v) else v);
                    converted =
                      (if num_of field_value \<noteq> None
                       then (if CHR ''.'' \<in> set v then Inl Unmodelled
                             else (case py_int v of Inl e \<Rightarrow> Inl e | Inr i \<Rightarrow> Inr (PInt i)))
                       else Inr (PStr v))
                in case converted of
                     Inl e \<Rightarrow> Inl e
                   | Inr v \<Rightarrow>
                       (let operator = (if operator = ''='' then ''=='' else operator)
                        in if operator \<in> {''>'', ''<'', ''=='', ''!='', ''>='', ''<=''}
                           then apply_operator operator field_value v
                           else Inl (ValueError (''Unsupported operator: '' @ operator))))))"

section \<open>Tree evaluator\<close>

text \<open>
  \<^verbatim>\<open>evaluate_rule\<close>. The argument is a node or \<^verbatim>\<open>None\<close>. An exception in the left
  child leaves the function before the right child is looked at. \<^verbatim>\<open>re.match\<close> raises
  \<^verbatim>\<open>TypeError\<close> when the operand is not a string.
\<close>

function evaluate_rule :: "node option \<Rightarrow> (string \<rightharpoonup> pyval) \<Rightarrow> error + bool" where
  "evaluate_rule None data = Inr False"
| "evaluate_rule (Some (Node nt v l r)) data =
     (if nt = PStr ''operator'' then
        (case evaluate_rule l data of
           Inl e \<Rightarrow> Inl e
         | Inr left_result \<Rightarrow>
             (case evaluate_rule r data of
                Inl e \<Rightarrow> Inl e
              | Inr right_result \<Rightarrow>
                  if v = PStr ''AND'' then Inr (left_result \<and> right_result)
                  else if v = PStr ''OR'' then Inr (left_result \<or> right_result)
                  else Inr False))
      else if nt = PStr ''operand'' then
        (case v of PStr operand \<Rightarrow> evaluate_condition operand data | _ \<Rightarrow> Inl TypeError)
      else Inr False)"
  by pat_completeness auto
termination
  by (relation "measure (\<lambda>(ast, data). size_option size ast)") auto

section \<open>Deserialization\<close>





section \<open>Notions used in the statements\<close>

text \<open>
  The conditions at the leaves of a tree, from left to right, and the trees that the
  parser and the combinator build: an operand node holds a string, an operator node has
  both children.
\<close>

fun leaf_conditions :: "node \<Rightarrow> string list" where
  "leaf_conditions (Node nt v l r) =
     (if nt = PStr ''operand'' then (case v of PStr s \<Rightarrow> [s] | _ \<Rightarrow> [])
      else (case l of None \<Rightarrow> [] | Some n \<Rightarrow> leaf_conditions n)
         @ (case r of None \<Rightarrow> [] | Some n \<Rightarrow> leaf_conditions n))"

fun built :: "node \<Rightarrow> bool" where
  "built (Node nt v l r) =
     (if nt = PStr ''operand'' then (case v of PStr s \<Rightarrow> True | _ \<Rightarrow> False)
      else nt = PStr ''operator''
         \<and> (case l of None \<Rightarrow> False | Some n \<Rightarrow> built n)
         \<and> (case r of None \<Rightarrow> False | Some n \<Rightarrow> built n))"

text \<open>The error of the first condition of a list that fails, if one does.\<close>

fun first_error :: "string list \<Rightarrow> (string \<rightharpoonup> pyval) \<Rightarrow> error option" where
  "first_error [] data = None"
| "first_error (c # cs) data =
     (case evaluate_condition c data of Inl e \<Rightarrow> Some e | Inr b \<Rightarrow> first_error cs data)"

text \<open>
  Three tokens that \<^verbatim>\<open>parse\<close> takes as one leaf condition: the first starts like an
  identifier and is not a keyword, the second starts with a comparison character; the
  third is not looked at. \<open>condition\<close> is the text of the leaf.
\<close>

definition is_leaf :: "string \<Rightarrow> string \<Rightarrow> bool" where
  "is_leaf f c = (ident_match f \<and> f \<noteq> ''AND'' \<and> f \<noteq> ''OR'' \<and> cmp_match c)"

definition condition :: "string \<Rightarrow> string \<Rightarrow> string \<Rightarrow> string" where
  "condition f c v = f @ '' '' @ c @ '' '' @ v"

definition leaf :: "string \<Rightarrow> string \<Rightarrow> string \<Rightarrow> node" where
  "leaf f c v = operand_node (condition f c v)"

text \<open>
  The rules of a list that compile, in the order of the list, and the tree that joins a
  list of trees with \<^verbatim>\<open>OR\<close>, leaning to the left.
\<close>

fun compiled :: "string list \<Rightarrow> node list" where
  "compiled [] = []"
| "compiled (rule # rules) =
     (case create_rule rule of Inr ast \<Rightarrow> ast # compiled rules | Inl e \<Rightarrow> compiled rules)"

fun or_chain :: "node list \<Rightarrow> node option" where
  "or_chain [] = None"
| "or_chain (t # ts) = Some (foldl (operator_node ''OR'') t ts)"

text \<open>
  The shapes of the tokens. What the pattern of the tokenizer can match, white space
  apart: a keyword, one of \<^verbatim>\<open>( ) < > ! =\<close> with an optional \<^verbatim>\<open>=\<close> after it, an
  identifier, a quoted text. And what it cannot: a run of characters at which no
  alternative matches.
\<close>

definition is_identifier :: "string \<Rightarrow> bool" where
  "is_identifier tok = (case tok of [] \<Rightarrow> False | c # cs \<Rightarrow> is_ident_start c \<and> list_all is_ident_char cs)"

definition op_token :: "string \<Rightarrow> bool" where
  "op_token tok = (case tok of [c] \<Rightarrow> is_op_char c | [c, d] \<Rightarrow> is_op_char c \<and> d = CHR ''='' | _ \<Rightarrow> False)"

definition quoted_token :: "string \<Rightarrow> bool" where
  "quoted_token tok = (case tok of [] \<Rightarrow> False
     | q # cs \<Rightarrow> (q = sq \<or> q = dq) \<and> cs \<noteq> [] \<and> last cs = q \<and> q \<notin> set (butlast cs))"

definition unmatched_char :: "char \<Rightarrow> bool" where
  "unmatched_char c = (\<not> is_space c \<and> \<not> is_op_char c \<and> \<not> is_ident_start c)"

definition unmatched_run :: "string \<Rightarrow> bool" where
  "unmatched_run tok = (tok \<noteq> [] \<and> list_all unmatched_char tok)"

definition token_form :: "string \<Rightarrow> bool" where
  "token_form tok = (tok = ''AND'' \<or> tok = ''OR'' \<or> op_token tok \<or> is_identifier tok
                     \<or> quoted_token tok \<or> unmatched_run tok)"

text \<open>
  The lexical forms as the specification lists them: the parentheses, the keywords, an
  identifier, one of the seven comparators, a quoted text, or a number written as
  digits with an optional fraction.
\<close>

definition spec_comparator :: "string \<Rightarrow> bool" where
  "spec_comparator tok = (tok \<in> set [''>'', ''<'', ''>='', ''<='', ''=='', ''!='', ''=''])"

definition numeric_literal :: "string \<Rightarrow> bool" where
  "numeric_literal tok =
     (let ds = takeWhile is_digit tok; r = dropWhile is_digit tok
      in ds \<noteq> [] \<and> (r = [] \<or> (hd r = CHR ''.'' \<and> tl r \<noteq> [] \<and> list_all is_digit (tl r))))"

definition spec_token :: "string \<Rightarrow> bool" where
  "spec_token tok = (tok = ''('' \<or> tok = '')'' \<or> tok = ''AND'' \<or> tok = ''OR'' \<or> is_identifier tok
                     \<or> spec_comparator tok \<or> quoted_token tok \<or> numeric_literal tok)"

section \<open>Facts about the tokenizer\<close>

lemma orelse_None: "orelse a b = None \<longleftrightarrow> a = None \<and> b = None"
  by (cases a) auto

lemma alt_space_None: "alt_space (c # cs) = None \<Longrightarrow> \<not> is_space c"
  by (simp add: alt_space_def split: if_splits)

lemma alt_op_None: "alt_op (c # cs) = None \<Longrightarrow> \<not> is_op_char c"
  by (cases cs) (simp_all add: alt_op_def split: if_splits)

lemma alt_ident_None: "alt_ident (c # cs) = None \<Longrightarrow> \<not> is_ident_start c"
  by (simp add: alt_ident_def split: if_splits)

lemma match_token_None: "match_token (c # cs) = None \<Longrightarrow> unmatched_char c"
  unfolding match_token_def orelse_None unmatched_char_def
  by (blast dest: alt_space_None alt_op_None alt_ident_None)

lemma alt_quoted_form: "q = sq \<or> q = dq \<Longrightarrow> alt_quoted q s = Some (tok, rest) \<Longrightarrow> quoted_token tok"
  by (cases s) (auto simp: alt_quoted_def quoted_token_def butlast_append split: if_splits list.splits
      dest: set_takeWhileD)

lemma match_token_Some:
  assumes "match_token s = Some (tok, rest)"
  shows "(tok \<noteq> [] \<and> list_all is_space tok) \<or> token_form tok"
proof -
  from match_token_cases [OF assms] show ?thesis
  proof (elim disjE)
    assume "alt_space s = Some (tok, rest)"
    then show ?thesis
      by (cases s) (auto simp: alt_space_def list_all_iff split: if_splits dest: set_takeWhileD)
  next
    assume "alt_word ''AND'' s = Some (tok, rest)"
    then show ?thesis by (auto simp: alt_word_def token_form_def split: if_splits)
  next
    assume "alt_word ''OR'' s = Some (tok, rest)"
    then show ?thesis by (auto simp: alt_word_def token_form_def split: if_splits)
  next
    assume "alt_op s = Some (tok, rest)"
    then have "op_token tok"
      by (auto simp: alt_op_def op_token_def split: list.splits if_splits)
    then show ?thesis by (simp add: token_form_def)
  next
    assume "alt_ident s = Some (tok, rest)"
    then have "is_identifier tok"
      by (cases s) (auto simp: alt_ident_def is_identifier_def list_all_iff split: if_splits
          dest: set_takeWhileD)
    then show ?thesis by (simp add: token_form_def)
  next
    assume "alt_quoted sq s = Some (tok, rest)"
    then have "quoted_token tok" by (rule alt_quoted_form [rotated]) simp
    then show ?thesis by (simp add: token_form_def)
  next
    assume "alt_quoted dq s = Some (tok, rest)"
    then have "quoted_token tok" by (rule alt_quoted_form [rotated]) simp
    then show ?thesis by (simp add: token_form_def)
  qed
qed

lemma gap_form: "list_all unmatched_char gap \<Longrightarrow> rev gap = [] \<or> token_form (rev gap)"
  by (cases "gap = []") (simp_all add: token_form_def unmatched_run_def)

lemma split_loop_forms:
  "list_all unmatched_char gap \<Longrightarrow>
     \<forall>t\<in>set (split_loop s gap). t = [] \<or> list_all is_space t \<or> token_form t"
proof (induction s gap rule: split_loop.induct)
  case (1 gap)
  from gap_form [OF 1] show ?case by auto
next
  case (2 c cs gap)
  note g = gap_form [OF "2.prems"]
  show ?case
  proof (cases "match_token (c # cs)")
    case None
    then have "unmatched_char c" by (rule match_token_None)
    with "2.prems" have "list_all unmatched_char (c # gap)" by simp
    from "2.IH"(1) [OF None this] None show ?thesis by simp
  next
    case (Some x)
    obtain tok rest where x: "x = (tok, rest)" by (cases x)
    from Some x have m: "match_token (c # cs) = Some (tok, rest)" by simp
    from match_token_Some [OF m] have t: "list_all is_space tok \<or> token_form tok" by blast
    have "list_all unmatched_char []" by simp
    from "2.IH"(2) [OF m refl this] have
      r: "\<forall>t\<in>set (split_loop rest []). t = [] \<or> list_all is_space t \<or> token_form t" .
    have eq: "split_loop (c # cs) gap = rev gap # tok # split_loop rest []"
      by (simp add: m)
    from r g t show ?thesis unfolding eq by (auto simp del: split_loop.simps)
  qed
qed

lemma strip_blank: "list_all is_space t \<Longrightarrow> strip t = []"
  by (simp add: strip_def list_all_iff dropWhile_eq_Nil_conv [THEN iffD2])

section \<open>Facts about the condition pattern\<close>

lemma space_not_ident: "is_space c \<Longrightarrow> \<not> is_ident_char c"
  by (auto simp: is_space_def is_ident_char_def is_ident_start_def is_digit_def code_def)

lemma cmp_not_ident: "is_cmp_char c \<Longrightarrow> \<not> is_ident_char c"
  by (auto simp: is_cmp_char_def is_ident_char_def is_ident_start_def is_digit_def code_def)

lemma cmp_not_space: "is_cmp_char c \<Longrightarrow> \<not> is_space c"
  by (auto simp: is_cmp_char_def is_space_def code_def)

lemma digit_not_space: "is_digit c \<Longrightarrow> \<not> is_space c"
  by (auto simp: is_digit_def is_space_def)

lemma digit_not_eq: "is_digit c \<Longrightarrow> c \<noteq> CHR ''=''"
  by (auto simp: is_digit_def code_def)

lemma quote_not_space: "\<not> is_space sq" "\<not> is_space dq"
  by (simp_all add: is_space_def code_def)

lemma run_then_stop:
  "\<forall>x\<in>set xs. P x \<Longrightarrow> r = [] \<or> \<not> P (hd r) \<Longrightarrow>
     takeWhile P (xs @ r) = xs \<and> dropWhile P (xs @ r) = r"
  by (induction xs) (auto simp: takeWhile_eq_Nil_iff dropWhile_eq_self_iff)

lemma alt_ident_parts:
  assumes "alt_ident s = Some (f, r)"
  shows "s = f @ r" and "f \<noteq> []"
    and "r' = [] \<or> \<not> is_ident_char (hd r') \<Longrightarrow> alt_ident (f @ r') = Some (f, r')"
proof -
  from assms obtain c cs where s: "s = c # cs" and c: "is_ident_start c"
    and f: "f = c # takeWhile is_ident_char cs" and r: "r = dropWhile is_ident_char cs"
    by (cases s) (auto simp: alt_ident_def split: if_splits)
  from s f r show "s = f @ r" by simp
  from f show "f \<noteq> []" by simp
  assume "r' = [] \<or> \<not> is_ident_char (hd r')"
  then have "takeWhile is_ident_char (takeWhile is_ident_char cs @ r') = takeWhile is_ident_char cs
     \<and> dropWhile is_ident_char (takeWhile is_ident_char cs @ r') = r'"
    by (intro run_then_stop) (auto dest: set_takeWhileD)
  with c f show "alt_ident (f @ r') = Some (f, r')"
    by (simp add: alt_ident_def)
qed

lemma match_cmp_parts:
  assumes "match_cmp s = Some (op, r)"
  shows "s = op @ r" and "op \<noteq> []" and "is_cmp_char (hd op)"
    and "r' = [] \<or> hd r' \<noteq> CHR ''='' \<Longrightarrow> match_cmp (op @ r') = Some (op, r')"
proof -
  from assms obtain c cs where s: "s = c # cs" and c: "is_cmp_char c"
    by (cases s) (auto simp: match_cmp_def split: if_splits)
  from assms s c have o: "(op = [c, CHR ''=''] \<and> cs = CHR ''='' # r) \<or> (op = [c] \<and> r = cs)"
    by (cases cs) (auto simp: match_cmp_def split: if_splits)
  from o s show "s = op @ r" by auto
  from o show "op \<noteq> []" by auto
  from o c show "is_cmp_char (hd op)" by auto
  assume "r' = [] \<or> hd r' \<noteq> CHR ''=''"
  with o c show "match_cmp (op @ r') = Some (op, r')"
    by (cases r') (auto simp: match_cmp_def)
qed


lemma not_digit_dot: "\<not> is_digit (CHR ''.'')"
  by (simp add: is_digit_def code_def)

lemma digits_only:
  assumes "ds \<noteq> []" "\<forall>x\<in>set ds. is_digit x"
    and "e = [] \<or> (\<not> is_digit (hd e) \<and> hd e \<noteq> CHR ''.'')"
  shows "match_literal (ds @ e) = Some (ds, e)"
proof -
  from assms(1) obtain c cs where ds: "ds = c # cs" by (cases ds) auto
  from ds assms(2) have c: "is_digit c" and cs: "\<forall>x\<in>set cs. is_digit x" by simp_all
  have "match_literal (c # cs @ e) = Some (c # cs, e)"
  proof (cases e)
    case Nil
    with c cs show ?thesis
      by (simp add: match_literal_def Let_def takeWhile_eq_all_conv [THEN iffD2]
          dropWhile_eq_Nil_conv [THEN iffD2])
  next
    case (Cons a l)
    with assms(3) have a: "\<not> is_digit a" "a \<noteq> CHR ''.''" by simp_all
    from cs a have "takeWhile is_digit (cs @ a # l) = cs" "dropWhile is_digit (cs @ a # l) = a # l"
      using run_then_stop [of cs is_digit "a # l"] by auto
    with Cons c a show ?thesis by (simp add: match_literal_def Let_def split: list.splits)
  qed
  with ds show ?thesis by simp
qed

lemma digits_fraction:
  assumes "ds \<noteq> []" "\<forall>x\<in>set ds. is_digit x" "fs \<noteq> []" "\<forall>x\<in>set fs. is_digit x"
    and "e = [] \<or> \<not> is_digit (hd e)"
  shows "match_literal (ds @ CHR ''.'' # fs @ e) = Some (ds @ CHR ''.'' # fs, e)"
proof -
  from assms(1) obtain c cs where ds: "ds = c # cs" by (cases ds) auto
  from assms(3) obtain g gs where fs: "fs = g # gs" by (cases fs) auto
  from ds assms(2) have c: "is_digit c" and cs: "\<forall>x\<in>set cs. is_digit x" by simp_all
  from fs assms(4) have g: "is_digit g" and gs: "\<forall>x\<in>set gs. is_digit x" by simp_all
  from cs have t: "takeWhile is_digit (cs @ CHR ''.'' # g # gs @ e) = cs"
      "dropWhile is_digit (cs @ CHR ''.'' # g # gs @ e) = CHR ''.'' # g # gs @ e"
    using run_then_stop [of cs is_digit "CHR ''.'' # g # gs @ e"] by (auto simp: not_digit_dot)
  from gs assms(5) have u: "takeWhile is_digit (gs @ e) = gs" "dropWhile is_digit (gs @ e) = e"
    using run_then_stop [of gs is_digit e] by auto
  have "match_literal (c # cs @ CHR ''.'' # g # gs @ e) = Some (c # cs @ CHR ''.'' # g # gs, e)"
    by (simp add: match_literal_def Let_def c g t u)
  with ds fs show ?thesis by simp
qed

lemma number_shape:
  assumes "is_digit c" "match_literal (c # cs) = Some (v, rest)"
  shows "c # cs = v @ rest \<and>
         ((v \<noteq> [] \<and> (\<forall>x\<in>set v. is_digit x)) \<or>
          (\<exists>ds fs. v = ds @ CHR ''.'' # fs \<and> ds \<noteq> [] \<and> (\<forall>x\<in>set ds. is_digit x)
                 \<and> fs \<noteq> [] \<and> (\<forall>x\<in>set fs. is_digit x)))"
proof -
  let ?ds = "takeWhile is_digit (c # cs)" and ?r = "dropWhile is_digit (c # cs)"
  have id: "c # cs = ?ds @ ?r" by (simp only: takeWhile_dropWhile_id)
  have dne: "?ds \<noteq> []" using assms(1) by simp
  have dall: "\<forall>x\<in>set ?ds. is_digit x" by (auto dest: set_takeWhileD)
  show ?thesis
  proof (cases "\<exists>e r'. ?r = CHR ''.'' # e # r' \<and> is_digit e")
    case True
    then obtain e r' where r: "?r = CHR ''.'' # e # r'" and e: "is_digit e" by blast
    let ?fs = "takeWhile is_digit (e # r')"
    from assms r e have v: "v = ?ds @ CHR ''.'' # ?fs" and rest: "rest = dropWhile is_digit (e # r')"
      by (simp_all add: match_literal_def Let_def)
    have "c # cs = ?ds @ CHR ''.'' # (?fs @ dropWhile is_digit (e # r'))"
      using id r by (simp only: takeWhile_dropWhile_id)
    with v rest have "c # cs = v @ rest" by simp
    moreover have "?fs \<noteq> []" using e by simp
    moreover have "\<forall>x\<in>set ?fs. is_digit x" by (auto dest: set_takeWhileD)
    ultimately show ?thesis using v dne dall by blast
  next
    case False
    with assms have "v = ?ds \<and> rest = ?r"
      by (auto simp: match_literal_def Let_def split: list.splits if_splits)
    with id dne dall show ?thesis by metis
  qed
qed

lemma lazy_quoted_shape:
  assumes "lazy_quoted q cs = Some (v, rest)"
  shows "\<exists>body. v = q # body @ [q] \<and> cs = body @ q # rest
           \<and> (\<forall>e. lazy_quoted q (body @ q # e) = Some (v, e))"
proof -
  let ?P = "\<lambda>x. x \<noteq> q \<and> x \<noteq> CHR 0x0A"
  let ?b = "takeWhile ?P cs"
  from assms have d: "dropWhile ?P cs = q # rest" and v: "v = q # ?b @ [q]"
    by (auto simp: lazy_quoted_def split: list.splits if_splits)
  have "cs = ?b @ dropWhile ?P cs" by (simp only: takeWhile_dropWhile_id)
  with d have cs: "cs = ?b @ q # rest" by simp
  have "takeWhile ?P (?b @ q # e) = ?b \<and> dropWhile ?P (?b @ q # e) = q # e" for e
    by (intro run_then_stop) (auto dest: set_takeWhileD)
  then have "lazy_quoted q (?b @ q # e) = Some (v, e)" for e
    using v by (simp add: lazy_quoted_def)
  with v cs show ?thesis by blast
qed


lemma quote_not_digit: "\<not> is_digit sq" "\<not> is_digit dq"
  by (simp_all add: is_digit_def code_def)

lemma match_literal_parts:
  assumes "match_literal L = Some (v, rest)"
  shows "L = v @ rest" and "v \<noteq> []" and "\<not> is_space (hd v)" and "hd v \<noteq> CHR ''=''"
    and "hd v = sq \<or> hd v = dq \<or> e = [] \<or> (\<not> is_digit (hd e) \<and> hd e \<noteq> CHR ''.'')
           \<Longrightarrow> match_literal (v @ e) = Some (v, e)"
    and "\<exists>v' r'. match_literal (L @ e) = Some (v', r')"
proof -
  from assms obtain c cs where L: "L = c # cs"
    by (cases L) (auto simp: match_literal_def)
  have "L = v @ rest \<and> v \<noteq> [] \<and> \<not> is_space (hd v) \<and> hd v \<noteq> CHR ''=''
      \<and> (hd v = sq \<or> hd v = dq \<or> e = [] \<or> (\<not> is_digit (hd e) \<and> hd e \<noteq> CHR ''.'')
           \<longrightarrow> match_literal (v @ e) = Some (v, e))
      \<and> (\<exists>v' r'. match_literal (L @ e) = Some (v', r'))"
  proof (cases "is_digit c")
    case True
    from number_shape [OF True assms [unfolded L]]
    have split: "c # cs = v @ rest" and shape:
      "(v \<noteq> [] \<and> (\<forall>x\<in>set v. is_digit x)) \<or>
       (\<exists>ds fs. v = ds @ CHR ''.'' # fs \<and> ds \<noteq> [] \<and> (\<forall>x\<in>set ds. is_digit x)
              \<and> fs \<noteq> [] \<and> (\<forall>x\<in>set fs. is_digit x))" by blast+
    from shape have vne: "v \<noteq> []" by auto
    with split have hv: "hd v = c" by (cases v) auto
    have "\<exists>v' r'. match_literal (c # cs @ e) = Some (v', r')"
      using True by (auto simp: match_literal_def Let_def split: list.splits)
    with L have ex: "\<exists>v' r'. match_literal (L @ e) = Some (v', r')" by simp
    from L split have Lv: "L = v @ rest" by simp
    have stop: "match_literal (v @ e) = Some (v, e)"
      if "e = [] \<or> (\<not> is_digit (hd e) \<and> hd e \<noteq> CHR ''.'')"
      using shape
    proof
      assume "v \<noteq> [] \<and> (\<forall>x\<in>set v. is_digit x)"
      with that show ?thesis by (intro digits_only) auto
    next
      assume "\<exists>ds fs. v = ds @ CHR ''.'' # fs \<and> ds \<noteq> [] \<and> (\<forall>x\<in>set ds. is_digit x)
              \<and> fs \<noteq> [] \<and> (\<forall>x\<in>set fs. is_digit x)"
      then obtain ds fs where v: "v = ds @ CHR ''.'' # fs" and d: "ds \<noteq> []" "\<forall>x\<in>set ds. is_digit x"
        and f: "fs \<noteq> []" "\<forall>x\<in>set fs. is_digit x" by blast
      from that have "e = [] \<or> \<not> is_digit (hd e)" by auto
      from digits_fraction [OF d f this] v show ?thesis by simp
    qed
    from True hv have nq: "hd v \<noteq> sq" "hd v \<noteq> dq" using quote_not_digit by auto
    from True hv have "\<not> is_space (hd v)" "hd v \<noteq> CHR ''=''"
      by (auto dest: digit_not_space digit_not_eq)
    with Lv vne stop nq ex show ?thesis by blast
  next
    case False
    with assms L obtain q where q: "q = sq \<or> q = dq" and c: "c = q"
      and lz: "lazy_quoted q cs = Some (v, rest)"
      by (auto simp: match_literal_def split: if_splits)
    from lazy_quoted_shape [OF lz] obtain body where v: "v = q # body @ [q]"
      and cs: "cs = body @ q # rest" and any: "\<And>e. lazy_quoted q (body @ q # e) = Some (v, e)"
      by blast
    from q have nd: "\<not> is_digit q" using quote_not_digit by auto
    have m: "match_literal (q # body @ q # e') = Some (v, e')" for e'
      using q nd any [of e'] by (auto simp: match_literal_def)
    from m [of e] v have "match_literal (v @ e) = Some (v, e)" by simp
    moreover from m [of "rest @ e"] L c cs have "match_literal (L @ e) = Some (v, rest @ e)" by simp
    moreover from q v have "\<not> is_space (hd v)" "hd v \<noteq> CHR ''=''"
      using quote_not_space by auto
    ultimately show ?thesis using L c cs v by auto
  qed
  then show "L = v @ rest" and "v \<noteq> []" and "\<not> is_space (hd v)" and "hd v \<noteq> CHR ''=''"
    and "hd v = sq \<or> hd v = dq \<or> e = [] \<or> (\<not> is_digit (hd e) \<and> hd e \<noteq> CHR ''.'')
           \<Longrightarrow> match_literal (v @ e) = Some (v, e)"
    and "\<exists>v' r'. match_literal (L @ e) = Some (v', r')" by blast+
qed

lemma cond_match_parts:
  assumes "cond_match s = Some (f, op, v, rest)"
  shows "\<exists>pre. s = pre @ v @ rest \<and> match_literal (v @ rest) = Some (v, rest) \<and>
           (\<forall>L v' rest'. match_literal L = Some (v', rest')
               \<longrightarrow> cond_match (pre @ L) = Some (f, op, v', rest'))"
proof -
  from assms obtain r1 r2 where
    i: "alt_ident s = Some (f, r1)" and
    c: "match_cmp (dropWhile is_space r1) = Some (op, r2)" and
    l: "match_literal (dropWhile is_space r2) = Some (v, rest)"
    by (auto simp: cond_match_def split: option.splits)
  let ?w1 = "takeWhile is_space r1" and ?w2 = "takeWhile is_space r2"
  note ip = alt_ident_parts [OF i] and cp = match_cmp_parts [OF c]
    and lp = match_literal_parts(1) [OF l]
  have r1: "r1 = ?w1 @ op @ r2"
    using cp(1) takeWhile_dropWhile_id [of is_space r1] by simp
  have r2: "r2 = ?w2 @ v @ rest"
    using lp takeWhile_dropWhile_id [of is_space r2] by simp
  let ?pre = "f @ ?w1 @ op @ ?w2"
  from ip(1) r1 r2 have s: "s = ?pre @ v @ rest" by simp
  have w1: "\<forall>x\<in>set ?w1. is_space x" and w2: "\<forall>x\<in>set ?w2. is_space x"
    by (auto dest: set_takeWhileD)
  from cp(2,3) obtain x xs where op: "op = x # xs" and x: "is_cmp_char x"
    by (cases op) auto
  have m: "cond_match (?pre @ L) = Some (f, op, v', rest')"
    if "match_literal L = Some (v', rest')" for L v' rest'
  proof -
    note mp = match_literal_parts [OF that]
    from mp(1,2) obtain h t where L: "L = h # t" and h: "hd v' = h" by (cases v') auto
    from mp(3,4) h have hs: "\<not> is_space h" and he: "h \<noteq> CHR ''=''" by simp_all
    have a: "alt_ident (f @ (?w1 @ op @ ?w2 @ L)) = Some (f, ?w1 @ op @ ?w2 @ L)"
    proof (rule ip(3), rule disjI2)
      show "\<not> is_ident_char (hd (?w1 @ op @ ?w2 @ L))"
      proof (cases ?w1)
        case Nil
        with op x show ?thesis by (simp add: cmp_not_ident)
      next
        case (Cons a as)
        with w1 have "is_space a" by simp
        with Cons show ?thesis by (simp add: space_not_ident)
      qed
    qed
    have b: "dropWhile is_space (?w1 @ op @ ?w2 @ L) = op @ ?w2 @ L"
      using run_then_stop [OF w1, of "op @ ?w2 @ L"] op x by (simp add: cmp_not_space)
    have c': "match_cmp (op @ (?w2 @ L)) = Some (op, ?w2 @ L)"
    proof (rule cp(4), rule disjI2)
      show "hd (?w2 @ L) \<noteq> CHR ''=''"
      proof (cases ?w2)
        case Nil
        with L he show ?thesis by simp
      next
        case (Cons a as)
        with w2 have "is_space a" by simp
        then have "a \<noteq> CHR ''=''" by (auto simp: is_space_def code_def)
        with Cons show ?thesis by simp
      qed
    qed
    have d: "dropWhile is_space (?w2 @ L) = L"
      using run_then_stop [OF w2, of L] L hs by simp
    from a b c' d that show ?thesis
      by (simp add: cond_match_def)
  qed
  from l lp have "match_literal (v @ rest) = Some (v, rest)" by simp
  with s m show ?thesis by blast
qed


lemma evaluate_condition_groups:
  "cond_match s = Some (f, op, v, r) \<Longrightarrow> cond_match s' = Some (f, op, v, r') \<Longrightarrow>
     evaluate_condition s data = evaluate_condition s' data"
  by (simp add: evaluate_condition_def)

lemma apply_operator_error:
  "apply_operator operator x y = Inl e \<Longrightarrow> e = TypeError \<or> e = Unmodelled"
  by (auto simp: apply_operator_def split: option.splits pyval.splits if_splits)

lemma py_int_error: "py_int s = Inl e \<Longrightarrow> e = IntValueError s \<or> e = Unmodelled"
  by (auto simp: py_int_def Let_def split: prod.splits if_splits)

lemma evaluate_condition_matched:
  assumes "cond_match s = Some (f, op, v, r)"
  shows "evaluate_condition s data \<noteq> Inl (ValueError (''Invalid condition: '' @ m))"
proof
  assume a: "evaluate_condition s data = Inl (ValueError (''Invalid condition: '' @ m))"
  show False
  proof (cases "data f")
    case None
    with assms a show False by (simp add: evaluate_condition_def)
  next
    case (Some fv)
    with assms a show False
      by (auto simp: evaluate_condition_def Let_def split: if_splits sum.splits
          dest: apply_operator_error py_int_error)
  qed
qed

section \<open>Facts about trees\<close>

lemma first_error_append:
  "first_error (xs @ ys) data =
     (case first_error xs data of Some e \<Rightarrow> Some e | None \<Rightarrow> first_error ys data)"
  by (induction xs) (auto split: sum.splits)

lemma evaluate_rule_first_error:
  "built t \<Longrightarrow>
     (case first_error (leaf_conditions t) data of
        Some e \<Rightarrow> evaluate_rule (Some t) data = Inl e
      | None \<Rightarrow> (\<exists>b. evaluate_rule (Some t) data = Inr b))"
proof (induction t)
  case (Node nt v l r)
  show ?case
  proof (cases "nt = PStr ''operand''")
    case True
    with Node.prems show ?thesis
      by (auto split: pyval.splits sum.splits)
  next
    case False
    with Node.prems obtain ln rn where
      nt: "nt = PStr ''operator''" and l: "l = Some ln" and r: "r = Some rn"
      and bl: "built ln" and br: "built rn"
      by (auto split: option.splits)
    from Node.IH(1) [of ln] l bl have il:
      "case first_error (leaf_conditions ln) data of
         Some e \<Rightarrow> evaluate_rule (Some ln) data = Inl e
       | None \<Rightarrow> (\<exists>b. evaluate_rule (Some ln) data = Inr b)" by simp
    from Node.IH(2) [of rn] r br have ir:
      "case first_error (leaf_conditions rn) data of
         Some e \<Rightarrow> evaluate_rule (Some rn) data = Inl e
       | None \<Rightarrow> (\<exists>b. evaluate_rule (Some rn) data = Inr b)" by simp
    from il ir show ?thesis
      by (auto simp: nt l r first_error_append split: option.splits)
  qed
qed

lemma first_error_split:
  "(\<forall>p\<in>set ps. \<exists>b. evaluate_condition p data = Inr b) \<Longrightarrow> evaluate_condition c data = Inl e \<Longrightarrow>
   first_error (ps @ c # qs) data = Some e"
  by (induction ps) auto

lemma first_error_mem:
  "c \<in> set cs \<Longrightarrow> evaluate_condition c data = Inl e \<Longrightarrow> \<exists>e'. first_error cs data = Some e'"
  by (induction cs) (auto split: sum.splits)



section \<open>Facts about the parser and the combinator\<close>

lemma not_ident_start_paren: "\<not> is_ident_start (CHR ''('')" "\<not> is_ident_start (CHR '')'')"
  by (simp_all add: is_ident_start_def code_def)

lemma ident_match_token:
  "ident_match f \<Longrightarrow> f \<noteq> ''('' \<and> f \<noteq> '')''"
  using not_ident_start_paren by (cases f) (auto simp: ident_match_def)

lemma dom_precedence: "t \<in> dom precedence \<longleftrightarrow> t = ''AND'' \<or> t = ''OR''"
  by (auto simp: precedence_def)

lemma parse_loop_leaf:
  "is_leaf f c \<Longrightarrow> parse_loop (f # c # v # ts) out ops = parse_loop ts (leaf f c v # out) ops"
  using ident_match_token [of f]
  by (simp add: is_leaf_def leaf_def condition_def dom_precedence)

lemma parse_loop_op:
  "parse_loop (''AND'' # ts) out ops =
     (case collapse_prec ''AND'' out ops of Inl e \<Rightarrow> Inl e
      | Inr (out', ops') \<Rightarrow> parse_loop ts out' (''AND'' # ops'))"
  "parse_loop (''OR'' # ts) out ops =
     (case collapse_prec ''OR'' out ops of Inl e \<Rightarrow> Inl e
      | Inr (out', ops') \<Rightarrow> parse_loop ts out' (''OR'' # ops'))"
  by (simp_all add: dom_precedence)

lemma combine_loop_chain:
  "\<forall>r\<in>set rules. \<forall>e. create_rule r = Inl e \<longrightarrow> is_ValueError e \<Longrightarrow>
   combine_loop rules acc =
     Inr (case acc of None \<Rightarrow> or_chain (compiled rules)
          | Some c \<Rightarrow> Some (foldl (operator_node ''OR'') c (compiled rules)))"
proof (induction rules arbitrary: acc)
  case Nil
  show ?case by (cases acc) simp_all
next
  case (Cons r rules)
  then have ih: "\<And>acc. combine_loop rules acc =
     Inr (case acc of None \<Rightarrow> or_chain (compiled rules)
          | Some c \<Rightarrow> Some (foldl (operator_node ''OR'') c (compiled rules)))" by simp
  show ?case
  proof (cases "create_rule r")
    case (Inl e)
    with Cons.prems have "is_ValueError e" by simp
    with Inl ih [of acc] show ?thesis by (cases acc) simp_all
  next
    case (Inr ast)
    then show ?thesis by (cases acc) (simp_all add: ih)
  qed
qed

section \<open>The concrete scenario\<close>

text \<open>
  Claim C1. The rule
  \<^verbatim>\<open>((age > 30 AND department == 'Sales') OR (age < 25 AND department == 'Marketing'))
  AND (salary > 50000 OR experience > 5)\<close>
  is tokenized and parsed without error, into the tree written out below; this tree
  evaluates to true on the record \<^verbatim>\<open>{age: 35, department: "Sales", salary: 60000,
  experience: 6}\<close> and to false on \<^verbatim>\<open>{age: 29, department: "Sales", salary: 40000,
  experience: 3}\<close>.
\<close>

theorem scenario_rule_evaluates:
  "parse (tokenize (''((age > 30 AND department == '' @ [sq] @ ''Sales'' @ [sq]
        @ '') OR (age < 25 AND department == '' @ [sq] @ ''Marketing'' @ [sq]
        @ '')) AND (salary > 50000 OR experience > 5)''))
     = Inr (operator_node ''AND''
              (operator_node ''OR''
                 (operator_node ''AND''
                    (operand_node ''age > 30'')
                    (operand_node (''department == '' @ [sq] @ ''Sales'' @ [sq])))
                 (operator_node ''AND''
                    (operand_node ''age < 25'')
                    (operand_node (''department == '' @ [sq] @ ''Marketing'' @ [sq]))))
              (operator_node ''OR''
                 (operand_node ''salary > 50000'')
                 (operand_node ''experience > 5'')))
   \<and> (case parse (tokenize (''((age > 30 AND department == '' @ [sq] @ ''Sales'' @ [sq]
        @ '') OR (age < 25 AND department == '' @ [sq] @ ''Marketing'' @ [sq]
        @ '')) AND (salary > 50000 OR experience > 5)'')) of
         Inl e \<Rightarrow> False
       | Inr ast \<Rightarrow>
           evaluate_rule (Some ast)
             [''age'' \<mapsto> PInt 35, ''department'' \<mapsto> PStr ''Sales'',
              ''salary'' \<mapsto> PInt 60000, ''experience'' \<mapsto> PInt 6] = Inr True
         \<and> evaluate_rule (Some ast)
             [''age'' \<mapsto> PInt 29, ''department'' \<mapsto> PStr ''Sales'',
              ''salary'' \<mapsto> PInt 40000, ''experience'' \<mapsto> PInt 3] = Inr False)"
  by code_simp

section \<open>Precedence\<close>

text \<open>
  Claim C2. For three leaf conditions \<open>a\<close>, \<open>b\<close>, \<open>c\<close>, each of three tokens, the tokens
  of \<^verbatim>\<open>a AND b OR c\<close> parse to \<open>OR(AND(a, b), c)\<close>: \<^verbatim>\<open>AND\<close> binds tighter than
  \<^verbatim>\<open>OR\<close>. So when \<open>a\<close> evaluates to false and \<open>b\<close> and \<open>c\<close> to true, the rule
  evaluates to true, where the other grouping \<open>AND(a, OR(b, c))\<close> would give false.
  The same holds with the operators exchanged (\<^verbatim>\<open>a OR b AND c\<close> is
  \<open>OR(a, AND(b, c))\<close>), and equal operators group to the left.
\<close>

theorem and_binds_tighter_than_or:
  assumes "is_leaf f1 c1" and "is_leaf f2 c2" and "is_leaf f3 c3"
  shows "parse [f1, c1, v1, ''AND'', f2, c2, v2, ''OR'', f3, c3, v3]
           = Inr (operator_node ''OR''
                    (operator_node ''AND'' (leaf f1 c1 v1) (leaf f2 c2 v2)) (leaf f3 c3 v3))
       \<and> (evaluate_condition (condition f1 c1 v1) data = Inr False
          \<and> evaluate_condition (condition f2 c2 v2) data = Inr True
          \<and> evaluate_condition (condition f3 c3 v3) data = Inr True
          \<longrightarrow> evaluate_rule (Some (operator_node ''OR''
                    (operator_node ''AND'' (leaf f1 c1 v1) (leaf f2 c2 v2)) (leaf f3 c3 v3)))
                  data = Inr True
            \<and> evaluate_rule (Some (operator_node ''AND'' (leaf f1 c1 v1)
                    (operator_node ''OR'' (leaf f2 c2 v2) (leaf f3 c3 v3))))
                  data = Inr False)
       \<and> parse [f1, c1, v1, ''OR'', f2, c2, v2, ''AND'', f3, c3, v3]
           = Inr (operator_node ''OR'' (leaf f1 c1 v1)
                    (operator_node ''AND'' (leaf f2 c2 v2) (leaf f3 c3 v3)))
       \<and> parse [f1, c1, v1, ''AND'', f2, c2, v2, ''AND'', f3, c3, v3]
           = Inr (operator_node ''AND''
                    (operator_node ''AND'' (leaf f1 c1 v1) (leaf f2 c2 v2)) (leaf f3 c3 v3))
       \<and> parse [f1, c1, v1, ''OR'', f2, c2, v2, ''OR'', f3, c3, v3]
           = Inr (operator_node ''OR''
                    (operator_node ''OR'' (leaf f1 c1 v1) (leaf f2 c2 v2)) (leaf f3 c3 v3))"
proof -
  note p = parse_def parse_loop_leaf [OF assms(1)] parse_loop_leaf [OF assms(2)]
    parse_loop_leaf [OF assms(3)] parse_loop_op dom_precedence precedence_def
  have 1: "parse [f1, c1, v1, ''AND'', f2, c2, v2, ''OR'', f3, c3, v3]
           = Inr (operator_node ''OR''
                    (operator_node ''AND'' (leaf f1 c1 v1) (leaf f2 c2 v2)) (leaf f3 c3 v3))"
    by (simp add: p del: parse_loop.simps(2))
  have 2: "parse [f1, c1, v1, ''OR'', f2, c2, v2, ''AND'', f3, c3, v3]
           = Inr (operator_node ''OR'' (leaf f1 c1 v1)
                    (operator_node ''AND'' (leaf f2 c2 v2) (leaf f3 c3 v3)))"
    by (simp add: p del: parse_loop.simps(2))
  have 3: "parse [f1, c1, v1, ''AND'', f2, c2, v2, ''AND'', f3, c3, v3]
           = Inr (operator_node ''AND''
                    (operator_node ''AND'' (leaf f1 c1 v1) (leaf f2 c2 v2)) (leaf f3 c3 v3))"
    by (simp add: p del: parse_loop.simps(2))
  have 4: "parse [f1, c1, v1, ''OR'', f2, c2, v2, ''OR'', f3, c3, v3]
           = Inr (operator_node ''OR''
                    (operator_node ''OR'' (leaf f1 c1 v1) (leaf f2 c2 v2)) (leaf f3 c3 v3))"
    by (simp add: p del: parse_loop.simps(2))
  have 5: "evaluate_rule (Some (operator_node ''OR''
                    (operator_node ''AND'' (leaf f1 c1 v1) (leaf f2 c2 v2)) (leaf f3 c3 v3)))
                  data = Inr True
            \<and> evaluate_rule (Some (operator_node ''AND'' (leaf f1 c1 v1)
                    (operator_node ''OR'' (leaf f2 c2 v2) (leaf f3 c3 v3))))
                  data = Inr False"
    if "evaluate_condition (condition f1 c1 v1) data = Inr False"
      "evaluate_condition (condition f2 c2 v2) data = Inr True"
      "evaluate_condition (condition f3 c3 v3) data = Inr True"
    using that by (simp add: operator_node_def operand_node_def leaf_def)
  from 1 2 3 4 5 show ?thesis by blast
qed

theorem and_binds_tighter_than_or_witness:
  "parse (tokenize ''x > 5 AND y > 0 OR z < 3'')
     = Inr (operator_node ''OR''
              (operator_node ''AND'' (operand_node ''x > 5'') (operand_node ''y > 0''))
              (operand_node ''z < 3''))
   \<and> evaluate_rule (Some (operator_node ''OR''
              (operator_node ''AND'' (operand_node ''x > 5'') (operand_node ''y > 0''))
              (operand_node ''z < 3'')))
        [''x'' \<mapsto> PInt 1, ''y'' \<mapsto> PInt 1, ''z'' \<mapsto> PInt 1] = Inr True
   \<and> evaluate_rule (Some (operator_node ''AND'' (operand_node ''x > 5'')
              (operator_node ''OR'' (operand_node ''y > 0'') (operand_node ''z < 3''))))
        [''x'' \<mapsto> PInt 1, ''y'' \<mapsto> PInt 1, ''z'' \<mapsto> PInt 1] = Inr False"
proof -
  have t: "tokenize ''x > 5 AND y > 0 OR z < 3''
      = [''x'', ''>'', ''5'', ''AND'', ''y'', ''>'', ''0'', ''OR'', ''z'', ''<'', ''3'']"
    by code_simp
  have l: "is_leaf ''x'' ''>''" "is_leaf ''y'' ''>''" "is_leaf ''z'' ''<''"
    by code_simp+
  have a: "evaluate_condition (condition ''x'' ''>'' ''5'')
             [''x'' \<mapsto> PInt 1, ''y'' \<mapsto> PInt 1, ''z'' \<mapsto> PInt 1] = Inr False"
    by code_simp
  have b: "evaluate_condition (condition ''y'' ''>'' ''0'')
             [''x'' \<mapsto> PInt 1, ''y'' \<mapsto> PInt 1, ''z'' \<mapsto> PInt 1] = Inr True"
    by code_simp
  have c: "evaluate_condition (condition ''z'' ''<'' ''3'')
             [''x'' \<mapsto> PInt 1, ''y'' \<mapsto> PInt 1, ''z'' \<mapsto> PInt 1] = Inr True"
    by code_simp
  have n: "leaf ''x'' ''>'' ''5'' = operand_node ''x > 5''"
    "leaf ''y'' ''>'' ''0'' = operand_node ''y > 0''"
    "leaf ''z'' ''<'' ''3'' = operand_node ''z < 3''"
    by (simp_all add: leaf_def condition_def)
  from and_binds_tighter_than_or [OF l, of "''5''" "''0''" "''3''"
      "[''x'' \<mapsto> PInt 1, ''y'' \<mapsto> PInt 1, ''z'' \<mapsto> PInt 1]"] a b c
  show ?thesis unfolding t n by blast
qed

section \<open>Serialization round trip\<close>



section \<open>Missing fields\<close>

text \<open>
  Claim C4. When the condition has the shape of the pattern and its field is not a key
  of the record, \<^verbatim>\<open>evaluate_condition\<close> raises the \<^verbatim>\<open>ValueError\<close> that names the
  field; it returns no boolean. The error leaves the tree evaluator: an operand node
  with this condition raises it; a tree as the parser builds it, with this condition
  at a leaf, never evaluates to a boolean; and when the leaves to the left of it
  evaluate without error, the error that comes out is this one.
\<close>

theorem missing_field_is_an_error:
  assumes "cond_match operand = Some (field, operator, v, rest)" and "data field = None"
  shows "evaluate_condition operand data
           = Inl (ValueError (''Field '' @ [sq] @ field @ [sq] @ '' not found in data.''))
       \<and> evaluate_rule (Some (operand_node operand)) data
           = Inl (ValueError (''Field '' @ [sq] @ field @ [sq] @ '' not found in data.''))
       \<and> (\<forall>t. built t \<and> operand \<in> set (leaf_conditions t)
              \<longrightarrow> (\<exists>e. evaluate_rule (Some t) data = Inl e))
       \<and> (\<forall>t ps qs. built t \<and> leaf_conditions t = ps @ operand # qs
                \<and> (\<forall>p\<in>set ps. \<exists>b. evaluate_condition p data = Inr b)
              \<longrightarrow> evaluate_rule (Some t) data
                    = Inl (ValueError (''Field '' @ [sq] @ field @ [sq] @ '' not found in data.'')))"
proof -
  let ?E = "ValueError (''Field '' @ [sq] @ field @ [sq] @ '' not found in data.'')"
  from assms have c: "evaluate_condition operand data = Inl ?E"
    by (simp add: evaluate_condition_def)
  then have n: "evaluate_rule (Some (operand_node operand)) data = Inl ?E"
    by (simp add: operand_node_def)
  have a: "\<exists>e. evaluate_rule (Some t) data = Inl e"
    if "built t" "operand \<in> set (leaf_conditions t)" for t
  proof -
    from first_error_mem [OF that(2) c] obtain e'
      where "first_error (leaf_conditions t) data = Some e'" by blast
    with evaluate_rule_first_error [OF that(1), of data] show ?thesis by auto
  qed
  have b: "evaluate_rule (Some t) data = Inl ?E"
    if "built t" "leaf_conditions t = ps @ operand # qs"
       "\<forall>p\<in>set ps. \<exists>b. evaluate_condition p data = Inr b" for t ps qs
  proof -
    from first_error_split [OF that(3) c, of qs] that(2)
    have "first_error (leaf_conditions t) data = Some ?E" by simp
    with evaluate_rule_first_error [OF that(1), of data] show ?thesis by simp
  qed
  from c n a b show ?thesis by blast
qed

theorem missing_field_is_an_error_witness:
  "evaluate_condition ''salary > 50000'' [''age'' \<mapsto> PInt 35]
     = Inl (ValueError (''Field '' @ [sq] @ ''salary'' @ [sq] @ '' not found in data.''))
   \<and> evaluate_rule (Some (operator_node ''AND'' (operand_node ''age > 30'')
                            (operand_node ''salary > 50000''))) [''age'' \<mapsto> PInt 35]
     = Inl (ValueError (''Field '' @ [sq] @ ''salary'' @ [sq] @ '' not found in data.''))"
proof -
  let ?t = "operator_node ''AND'' (operand_node ''age > 30'') (operand_node ''salary > 50000'')"
  have m: "cond_match ''salary > 50000'' = Some (''salary'', ''>'', ''50000'', [])"
    by code_simp
  have d: "[''age'' \<mapsto> PInt 35] ''salary'' = None" by simp
  have b: "built ?t" by code_simp
  have l: "leaf_conditions ?t = [''age > 30''] @ ''salary > 50000'' # []" by code_simp
  have "evaluate_condition ''age > 30'' [''age'' \<mapsto> PInt 35] = Inr True" by code_simp
  then have p: "\<forall>p\<in>set [''age > 30'']. \<exists>b. evaluate_condition p [''age'' \<mapsto> PInt 35] = Inr b"
    by auto
  from missing_field_is_an_error [of "''salary > 50000''" "''salary''" "''>''" "''50000''" "[]"
      "[''age'' \<mapsto> PInt 35]", OF m d] b l p
  show ?thesis by blast
qed

section \<open>Operator nodes\<close>

text \<open>
  Claim C5. An operator node evaluates its left child and then its right child,
  whatever the left one returned, and only then combines the two booleans. So when
  the left child returns a boolean (false, say, under \<^verbatim>\<open>AND\<close>) and the right child
  raises an error, the node raises that error; when both return booleans, \<^verbatim>\<open>AND\<close>
  gives their conjunction and \<^verbatim>\<open>OR\<close> their disjunction.
\<close>

theorem operator_evaluates_both_children:
  "evaluate_rule l data = Inr a \<Longrightarrow>
     (evaluate_rule r data = Inl e \<longrightarrow>
        evaluate_rule (Some (Node (PStr ''operator'') v l r)) data = Inl e)
   \<and> (evaluate_rule r data = Inr b \<longrightarrow>
        evaluate_rule (Some (Node (PStr ''operator'') (PStr ''AND'') l r)) data = Inr (a \<and> b)
      \<and> evaluate_rule (Some (Node (PStr ''operator'') (PStr ''OR'') l r)) data = Inr (a \<or> b))"
  by simp

theorem operator_evaluates_both_children_witness:
  "evaluate_rule (Some (operand_node ''age > 40'')) [''age'' \<mapsto> PInt 35] = Inr False
   \<and> evaluate_rule (Some (operand_node ''salary > 5'')) [''age'' \<mapsto> PInt 35]
       = Inl (ValueError (''Field '' @ [sq] @ ''salary'' @ [sq] @ '' not found in data.''))
   \<and> evaluate_rule (Some (operator_node ''AND'' (operand_node ''age > 40'')
                            (operand_node ''salary > 5''))) [''age'' \<mapsto> PInt 35]
       = Inl (ValueError (''Field '' @ [sq] @ ''salary'' @ [sq] @ '' not found in data.''))"
proof -
  have l: "evaluate_rule (Some (operand_node ''age > 40'')) [''age'' \<mapsto> PInt 35] = Inr False"
    by code_simp
  have r: "evaluate_rule (Some (operand_node ''salary > 5'')) [''age'' \<mapsto> PInt 35]
       = Inl (ValueError (''Field '' @ [sq] @ ''salary'' @ [sq] @ '' not found in data.''))"
    by code_simp
  from operator_evaluates_both_children
         [OF l, of "Some (operand_node ''salary > 5'')" _ "PStr ''AND''"] r l
  show ?thesis unfolding operator_node_def by blast
qed

section \<open>Unmatched closing parenthesis\<close>

text \<open>
  Claim C8 says that a closing parenthesis with no opening one makes \<^verbatim>\<open>parse\<close> fail
  with its typed parse error (a \<^verbatim>\<open>ValueError\<close> with a cause). On the tokens of
  \<^verbatim>\<open>age > 30 )\<close> the source instead reaches \<^verbatim>\<open>operators.pop()\<close> with an empty
  stack: the result is \<^verbatim>\<open>IndexError\<close>, which \<^verbatim>\<open>create_rule\<close> does not catch.
\<close>

theorem unmatched_paren_index_error:
  "tokenize ''age > 30 )'' = [''age'', ''>'', ''30'', '')'']
   \<and> parse [''age'', ''>'', ''30'', '')''] = Inl IndexError
   \<and> create_rule ''age > 30 )'' = Inl IndexError"
  by code_simp

section \<open>Rule combinator\<close>

text \<open>
  Claim C6. On the list \<^verbatim>\<open>["age > 30", "not a valid rule ++"]\<close> the combinator does
  not fail: the second rule does not compile (a \<^verbatim>\<open>ValueError\<close>) and is skipped, and
  the result is the tree of \<^verbatim>\<open>age > 30\<close> alone, as \<^verbatim>\<open>create_rule\<close> gives it, with
  no \<^verbatim>\<open>OR\<close> node around it. In general, when every rule of the list either compiles
  or fails with a \<^verbatim>\<open>ValueError\<close>, the result joins the rules that compile, in the
  order of the list.
\<close>

theorem combine_rules_skips_bad_rule:
  "combine_rules [''age > 30'', ''not a valid rule ++'']
     = Inr (Some (operand_node ''age > 30''))
   \<and> create_rule ''age > 30'' = Inr (operand_node ''age > 30'')
   \<and> create_rule ''not a valid rule ++''
     = Inl (ValueError (''Error parsing rule: Invalid token or incomplete expression: ''
                        @ [sq] @ ''not'' @ [sq]))
   \<and> (list_all (\<lambda>r. case create_rule r of Inl e \<Rightarrow> is_ValueError e | Inr ast \<Rightarrow> True) rules
        \<longrightarrow> combine_rules rules = Inr (or_chain (compiled rules)))"
proof -
  have a: "combine_rules [''age > 30'', ''not a valid rule ++'']
     = Inr (Some (operand_node ''age > 30''))
   \<and> create_rule ''age > 30'' = Inr (operand_node ''age > 30'')
   \<and> create_rule ''not a valid rule ++''
     = Inl (ValueError (''Error parsing rule: Invalid token or incomplete expression: ''
                        @ [sq] @ ''not'' @ [sq]))"
    by code_simp
  have b: "combine_rules rules = Inr (or_chain (compiled rules))"
    if "list_all (\<lambda>r. case create_rule r of Inl e \<Rightarrow> is_ValueError e | Inr ast \<Rightarrow> True) rules"
  proof -
    from that have "\<forall>r\<in>set rules. \<forall>e. create_rule r = Inl e \<longrightarrow> is_ValueError e"
      by (auto simp: list_all_iff)
    from combine_loop_chain [OF this, of None] show ?thesis
      by (simp add: combine_rules_def)
  qed
  from a b show ?thesis by blast
qed

theorem combine_rules_skips_bad_rule_witness:
  "combine_rules [''age > 30'', ''not a valid rule ++'', ''salary > 5'']
     = Inr (Some (operator_node ''OR'' (operand_node ''age > 30'')
                    (operand_node ''salary > 5'')))"
proof -
  let ?rules = "[''age > 30'', ''not a valid rule ++'', ''salary > 5'']"
  have h: "list_all (\<lambda>r. case create_rule r of Inl e \<Rightarrow> is_ValueError e | Inr ast \<Rightarrow> True)
             ?rules"
    by code_simp
  have c: "or_chain (compiled ?rules)
         = Some (operator_node ''OR'' (operand_node ''age > 30'') (operand_node ''salary > 5''))"
    by code_simp
  from combine_rules_skips_bad_rule [of ?rules] h c show ?thesis by simp
qed

text \<open>
  Claim C7 says that the combinator returns no tree, and raises nothing, whenever no rule
  of the list compiles. That is what happens on \<^verbatim>\<open>["not valid", "also not valid"]\<close>;
  but on the list \<^verbatim>\<open>[")"]\<close>, whose only rule does not compile either, the
  \<^verbatim>\<open>IndexError\<close> of \<^verbatim>\<open>parse\<close> passes through \<^verbatim>\<open>except ValueError\<close> and leaves
  \<^verbatim>\<open>combine_rules\<close>.
\<close>

theorem combine_rules_all_fail:
  "combine_rules [''not valid'', ''also not valid''] = Inr None
   \<and> create_rule '')'' = Inl IndexError
   \<and> combine_rules ['')''] = Inl IndexError"
  by code_simp

section \<open>Shapes of the tokens\<close>

text \<open>
  Claim C9 says that every token is one of the lexical forms of the specification, since
  only matched spans become tokens. It is not so: \<^verbatim>\<open>re.split\<close> also returns the text
  between the matches. On \<^verbatim>\<open>a ++ b\<close> the token \<^verbatim>\<open>++\<close> comes out, and on
  \<^verbatim>\<open>age ! 30\<close> the token \<^verbatim>\<open>!\<close>, which the pattern matches but which is none of the
  seven comparators.
\<close>

theorem tokens_outside_lexical_forms:
  "''++'' \<in> set (tokenize ''a ++ b'') \<and> \<not> spec_token ''++''
   \<and> ''!'' \<in> set (tokenize ''age ! 30'') \<and> \<not> spec_token ''!''"
  by code_simp

text \<open>
  Claim C9, amended. Every token is a keyword, one of \<^verbatim>\<open>( ) < > ! =\<close> alone or followed
  by \<^verbatim>\<open>=\<close>, an identifier, a quoted text, or a run of characters left between the
  matches, none of them white space, one of \<^verbatim>\<open>( ) < > ! =\<close>, a letter or an
  underscore (a number is a token of this last kind, and so is \<^verbatim>\<open>++\<close>). No token
  is empty or made of white space only.
\<close>

theorem tokens_have_a_form:
  "\<forall>tok\<in>set (tokenize s). token_form tok \<and> tok \<noteq> [] \<and> \<not> list_all is_space tok"
proof
  fix tok assume "tok \<in> set (tokenize s)"
  then have m: "tok \<in> set (split_loop s [])" and n: "strip tok \<noteq> []"
    by (simp_all add: tokenize_def re_split_def)
  from n have b: "\<not> list_all is_space tok" by (auto dest: strip_blank)
  then have e: "tok \<noteq> []" by auto
  from split_loop_forms [of "[]" s] m have "tok = [] \<or> list_all is_space tok \<or> token_form tok"
    by simp
  with b e show "token_form tok \<and> tok \<noteq> [] \<and> \<not> list_all is_space tok" by simp
qed

theorem tokens_have_a_form_witness:
  "tokenize ''a ++ 30'' = [''a'', ''++'', ''30'']
   \<and> token_form ''++'' \<and> unmatched_run ''30'' \<and> \<not> list_all is_space ''++''"
proof -
  have t: "tokenize ''a ++ 30'' = [''a'', ''++'', ''30'']" by code_simp
  have u: "unmatched_run ''30''" by code_simp
  from tokens_have_a_form [of "''a ++ 30''"] t
  have "token_form ''++'' \<and> ''++'' \<noteq> [] \<and> \<not> list_all is_space ''++''" by simp
  with t u show ?thesis by simp
qed

section \<open>Text after the condition\<close>

text \<open>
  Claim C10. \<^verbatim>\<open>re.match\<close> anchors the pattern at the start of the operand only.
  When a string \<open>p\<close> matches, with field \<open>f\<close> and comparator \<open>op\<close>, then \<open>p\<close> followed by
  any text still matches, with the same field and comparator, and
  \<^verbatim>\<open>evaluate_condition\<close> does not raise the invalid-condition error. What is
  evaluated is the matched part alone: the operand and its matched prefix give the
  same result. In particular, text added after the matched prefix changes nothing,
  unless it continues the number at the end of the prefix (the literal is quoted, or
  the text does not start with a digit or a dot).
\<close>

theorem condition_match_is_prefix_only:
  assumes "cond_match p = Some (f, op, v, rest)"
  shows "(\<exists>v' r'. cond_match (p @ extra) = Some (f, op, v', r'))
       \<and> (\<forall>m. evaluate_condition (p @ extra) data
                 \<noteq> Inl (ValueError (''Invalid condition: '' @ m)))
       \<and> cond_match (take (length p - length rest) p) = Some (f, op, v, [])
       \<and> evaluate_condition p data = evaluate_condition (take (length p - length rest) p) data
       \<and> (hd v = sq \<or> hd v = dq \<or> extra = [] \<or> (\<not> is_digit (hd extra) \<and> hd extra \<noteq> CHR ''.'')
            \<longrightarrow> evaluate_condition (take (length p - length rest) p @ extra) data
                  = evaluate_condition p data)"
proof -
  from cond_match_parts [OF assms] obtain pre where p: "p = pre @ v @ rest"
    and l: "match_literal (v @ rest) = Some (v, rest)"
    and m: "\<And>L v' rest'. match_literal L = Some (v', rest')
               \<Longrightarrow> cond_match (pre @ L) = Some (f, op, v', rest')" by blast
  from p have t: "take (length p - length rest) p = pre @ v" by simp
  from match_literal_parts(6) [OF l, of extra] obtain v' r'
    where "match_literal ((v @ rest) @ extra) = Some (v', r')" by blast
  from m [OF this] p have a: "cond_match (p @ extra) = Some (f, op, v', r')" by simp
  then have b: "evaluate_condition (p @ extra) data \<noteq> Inl (ValueError (''Invalid condition: '' @ m))"
    for m by (rule evaluate_condition_matched)
  from match_literal_parts(5) [OF l, of "[]"] have "match_literal v = Some (v, [])" by simp
  from m [OF this] have c: "cond_match (pre @ v) = Some (f, op, v, [])" .
  from evaluate_condition_groups [OF assms c] have d:
    "evaluate_condition p data = evaluate_condition (pre @ v) data" .
  have e: "evaluate_condition ((pre @ v) @ extra) data = evaluate_condition p data"
    if "hd v = sq \<or> hd v = dq \<or> extra = [] \<or> (\<not> is_digit (hd extra) \<and> hd extra \<noteq> CHR ''.'')"
  proof -
    from match_literal_parts(5) [OF l that] have "match_literal (v @ extra) = Some (v, extra)" .
    from m [OF this] have "cond_match ((pre @ v) @ extra) = Some (f, op, v, extra)" by simp
    from evaluate_condition_groups [OF this assms] show ?thesis .
  qed
  from a b c d e show ?thesis unfolding t by blast
qed

theorem condition_match_is_prefix_only_witness:
  "evaluate_condition ''age > 30 extra junk'' [''age'' \<mapsto> PInt 35] = Inr True
   \<and> evaluate_condition ''age > 30'' [''age'' \<mapsto> PInt 35] = Inr True"
proof -
  have h: "cond_match ''age > 30'' = Some (''age'', ''>'', ''30'', [])" by code_simp
  have v: "evaluate_condition ''age > 30'' [''age'' \<mapsto> PInt 35] = Inr True" by code_simp
  from condition_match_is_prefix_only
         [OF h, of "'' extra junk''" "[''age'' \<mapsto> PInt 35]"] v
  show ?thesis by (simp add: is_digit_def code_def)
qed

end
